theory Spec2Isabelle
  imports Main
begin

section \<open>Values, exceptions and results\<close>

text \<open>
  The JavaScript values that can sit in the handler array of \<open>Click\<close>. A function value
  is a reference (its number): \<open>!==\<close> on two function values compares the references.
  Numbers are the integers only (no \<open>NaN\<close>, no fractions).
\<close>

datatype jsval =
    JSUndefined
  | JSNull
  | JSBool bool
  | JSNum int
  | JSStr string
  | JSFun nat

text \<open>\<open>ToBoolean\<close>: what \<open>if (v)\<close>, \<open>v || w\<close> and the callback of \<open>filter\<close> test.\<close>

fun truthy :: "jsval \<Rightarrow> bool" where
  "truthy JSUndefined = False"
| "truthy JSNull = False"
| "truthy (JSBool b) = b"
| "truthy (JSNum n) = (n \<noteq> 0)"
| "truthy (JSStr s) = (s \<noteq> [])"
| "truthy (JSFun f) = True"

text \<open>
  An exception is either the \<open>TypeError\<close> of the language (calling what is not a function,
  reading a property of \<open>null\<close>) or a value thrown by a \<open>throw\<close> statement. An operation
  returns the exception that left it, if any, together with the state it left behind.
\<close>

datatype exn = TypeError | Thrown jsval

type_synonym 's result = "exn option \<times> 's"

section \<open>Observer: \<open>Click\<close>\<close>

text \<open>
  \<open>this.handlers\<close> is a reference to an array object. \<open>subscribe\<close> pushes onto that object
  in place; \<open>unsubscribe\<close> builds a new array with \<open>filter\<close> and stores its reference in
  the field. The store \<open>arrays\<close> maps references to array contents, references below
  \<open>next_ref\<close> are the allocated ones. \<open>invoked\<close> records every call of a handler (the
  function, its \<open>this\<close>, its argument) and \<open>out\<close> the lines written to the console.
\<close>

datatype scope = GlobalObject | Bound jsval

record click_state =
  arrays :: "nat \<Rightarrow> jsval list"
  next_ref :: nat
  handlers :: nat
  invoked :: "(nat \<times> scope \<times> jsval) list"
  out :: "string list"

text \<open>\<open>function Click() { this.handlers = []; }\<close>\<close>

definition Click :: click_state where
  "Click = \<lparr>arrays = (\<lambda>_. []), next_ref = 1, handlers = 0, invoked = [], out = []\<rparr>"

text \<open>\<open>this.handlers.push(fn)\<close>\<close>

definition subscribe :: "jsval \<Rightarrow> click_state \<Rightarrow> click_state" where
  "subscribe fn s = s\<lparr>arrays := (arrays s)(handlers s := arrays s (handlers s) @ [fn])\<rparr>"

text \<open>
  The callback of \<open>filter\<close> returns the item itself when \<open>item !== fn\<close> and \<open>undefined\<close>
  otherwise; \<open>filter\<close> keeps the items for which the returned value is truthy.
\<close>

definition unsubscribe_callback :: "jsval \<Rightarrow> jsval \<Rightarrow> jsval" where
  "unsubscribe_callback fn item = (if item \<noteq> fn then item else JSUndefined)"

definition unsubscribe :: "jsval \<Rightarrow> click_state \<Rightarrow> click_state" where
  "unsubscribe fn s =
     s\<lparr>arrays := (arrays s)(next_ref s :=
          filter (\<lambda>item. truthy (unsubscribe_callback fn item)) (arrays s (handlers s))),
       handlers := next_ref s,
       next_ref := Suc (next_ref s)\<rparr>"

text \<open>
  A handler is code of the caller. Its body is a sequence of statements: calls of
  \<open>subscribe\<close> and \<open>unsubscribe\<close> on the \<open>Click\<close> object, \<open>console.log\<close> (as \<open>clickHandler\<close>
  of \<open>run\<close> does) and \<open>throw\<close>. A program gives the body of every function value, for
  the \<open>this\<close> and the argument it is called with. Handlers that call \<open>fire\<close> themselves
  or write to the array \<open>handlers\<close> directly are outside this model.
\<close>

datatype action =
    CallSubscribe jsval
  | CallUnsubscribe jsval
  | ConsoleLog string
  | ThrowStmt jsval

type_synonym program = "nat \<Rightarrow> scope \<Rightarrow> jsval \<Rightarrow> action list"

fun exec :: "action list \<Rightarrow> click_state \<Rightarrow> click_state result" where
  "exec [] s = (None, s)"
| "exec (CallSubscribe v # as) s = exec as (subscribe v s)"
| "exec (CallUnsubscribe v # as) s = exec as (unsubscribe v s)"
| "exec (ConsoleLog l # as) s = exec as (s\<lparr>out := out s @ [l]\<rparr>)"
| "exec (ThrowStmt v # as) s = (Some (Thrown v), s)"

text \<open>\<open>item.call(scope, o)\<close>: only a function value has a \<open>call\<close> to invoke.\<close>

definition call_item :: "program \<Rightarrow> scope \<Rightarrow> jsval \<Rightarrow> jsval \<Rightarrow> click_state \<Rightarrow> click_state result" where
  "call_item P sc ev item s =
     (case item of
        JSFun f \<Rightarrow> exec (P f sc ev) (s\<lparr>invoked := invoked s @ [(f, sc, ev)]\<rparr>)
      | _ \<Rightarrow> (Some TypeError, s))"

text \<open>
  \<open>Array.prototype.forEach\<close> on the array object \<open>a\<close>: the indices \<open>0 .. len - 1\<close> are
  fixed when the loop starts, each element is read from the object when its turn
  comes, an index the object no longer has is skipped, and an exception thrown by the
  callback leaves the loop.
\<close>

fun forEach :: "program \<Rightarrow> scope \<Rightarrow> jsval \<Rightarrow> nat \<Rightarrow> nat list \<Rightarrow> click_state \<Rightarrow> click_state result" where
  "forEach P sc ev a [] s = (None, s)"
| "forEach P sc ev a (k # ks) s =
     (if k < length (arrays s a) then
        (case call_item P sc ev (arrays s a ! k) s of
           (None, s') \<Rightarrow> forEach P sc ev a ks s'
         | (Some e, s') \<Rightarrow> (Some e, s'))
      else forEach P sc ev a ks s)"

text \<open>\<open>var scope = thisObj || global || window;\<close> under Node, where \<open>global\<close> is an object.\<close>

definition fire_scope :: "jsval \<Rightarrow> scope" where
  "fire_scope thisObj = (if truthy thisObj then Bound thisObj else GlobalObject)"

definition fire :: "program \<Rightarrow> jsval \<Rightarrow> jsval \<Rightarrow> click_state \<Rightarrow> click_state result" where
  "fire P ev thisObj s =
     forEach P (fire_scope thisObj) ev (handlers s) [0..<length (arrays s (handlers s))] s"

text \<open>The handler list a caller sees: the contents of the array \<open>this.handlers\<close> refers to.\<close>

definition handler_list :: "click_state \<Rightarrow> jsval list" where
  "handler_list s = arrays s (handlers s)"

text \<open>A body without a \<open>throw\<close> statement.\<close>

fun no_throw :: "action list \<Rightarrow> bool" where
  "no_throw [] = True"
| "no_throw (ThrowStmt v # as) = False"
| "no_throw (a # as) = no_throw as"

text \<open>The array object \<open>a\<close> is allocated and still starts with the elements \<open>L\<close>.\<close>

definition keeps :: "nat \<Rightarrow> jsval list \<Rightarrow> click_state \<Rightarrow> bool" where
  "keeps a L s = (a < next_ref s \<and> (\<exists>ys. arrays s a = L @ ys))"

text \<open>Three programs for the examples: in the first the function 0 throws, in the second it
  unsubscribes itself and the function 1 and subscribes the function 3, in the third it
  unsubscribes itself and then throws.\<close>

definition throwing_program :: program where
  "throwing_program f sc ev =
     (if f = 0 then [ThrowStmt (JSStr ''boom'')] else [ConsoleLog ''fired''])"

definition unsubscribing_program :: program where
  "unsubscribing_program f sc ev =
     (if f = 0 then [CallUnsubscribe (JSFun 0), CallUnsubscribe (JSFun 1), CallSubscribe (JSFun 3)]
      else [ConsoleLog ''fired''])"

definition unsubscribe_then_throw_program :: program where
  "unsubscribe_then_throw_program f sc ev =
     (if f = 0 then [CallUnsubscribe (JSFun 0), ThrowStmt (JSNum 7)] else [ConsoleLog ''fired''])"

section \<open>Mediator: \<open>Participant\<close> and \<open>Chatroom\<close>\<close>

text \<open>
  Participants and chatrooms are objects on the heap, named by their references;
  \<open>!==\<close> on two participants compares the references. Names and messages are strings.
\<close>

type_synonym pref = nat

type_synonym cref = nat

text \<open>
  A participant object has the two fields its constructor sets. \<open>chatroom\<close> is \<open>null\<close>
  (\<open>None\<close>) or a reference to a chatroom.
\<close>

record participant =
  name :: string
  chatroom :: "cref option"

text \<open>\<open>function (name) { this.name = name; this.chatroom = null; }\<close>\<close>

definition Participant :: "string \<Rightarrow> participant" where
  "Participant nm = \<lparr>name = nm, chatroom = None\<rparr>"

text \<open>
  \<open>var participants = {}\<close> is a plain object used as a dictionary. Its own properties
  are kept in creation order (\<open>own\<close>: key and the participant stored there). Its
  prototype is \<open>Object.prototype\<close> (\<open>proto = None\<close>) until an assignment to the key
  \<open>__proto__\<close> makes a participant the prototype (\<open>proto = Some p\<close>).
\<close>

record registry =
  own :: "(string \<times> pref) list"
  proto :: "pref option"

text \<open>The closure a call of \<open>Chatroom()\<close> creates: \<open>participants = {}\<close>.\<close>

definition Chatroom :: registry where
  "Chatroom = \<lparr>own = [], proto = None\<rparr>"

text \<open>
  The object \<open>Chatroom()\<close> returns is the literal \<open>{ register: ..., send: ... }\<close>: these
  are all the properties it has of its own.
\<close>

definition Chatroom_methods :: "string list" where
  "Chatroom_methods = [''register'', ''send'']"

text \<open>
  The heap: the participant objects, the \<open>participants\<close> object of every chatroom, and
  what the calls of \<open>receive\<close> leave behind: \<open>console\<close> holds the lines \<open>console.log\<close>
  wrote, and \<open>calls\<close> is a record, kept for the proofs, of each call of \<open>receive\<close>
  (receiver, message, sender). The variable \<open>key\<close> of the broadcast loop, a global
  of the script since it is not declared, is not part of the heap.
\<close>

record world =
  parts :: "pref \<Rightarrow> participant"
  rooms :: "cref \<Rightarrow> registry"
  calls :: "(pref \<times> string \<times> pref) list"
  console :: "string list"

text \<open>\<open>new Participant(nm)\<close>, the new object getting the reference \<open>r\<close>.\<close>

definition new_Participant :: "pref \<Rightarrow> string \<Rightarrow> world \<Rightarrow> world" where
  "new_Participant r nm s = s\<lparr>parts := (parts s)(r := Participant nm)\<rparr>"

text \<open>\<open>new Chatroom()\<close>, the new object getting the reference \<open>c\<close>.\<close>

definition new_Chatroom :: "cref \<Rightarrow> world \<Rightarrow> world" where
  "new_Chatroom c s = s\<lparr>rooms := (rooms s)(c := Chatroom)\<rparr>"

subsection \<open>Property keys of a plain object\<close>

text \<open>
  An array index is a key that is the decimal numeral, without leading zeros, of an
  integer from \<open>0\<close> to \<open>2^32 - 2\<close>. The keys of an object are enumerated with the array
  indices first, in ascending numeric order, and the other keys after them in the
  order in which the properties were created.
\<close>

definition is_digit :: "char \<Rightarrow> bool" where
  "is_digit ch = (48 \<le> (of_char ch :: nat) \<and> (of_char ch :: nat) \<le> 57)"

definition decimal :: "string \<Rightarrow> nat" where
  "decimal str = foldl (\<lambda>n ch. 10 * n + ((of_char ch :: nat) - 48)) 0 str"

definition is_array_index :: "string \<Rightarrow> bool" where
  "is_array_index str =
     (str \<noteq> [] \<and> list_all is_digit str
      \<and> (if hd str = CHR ''0'' then length str = 1 else True)
      \<and> decimal str < 2 ^ 32 - 1)"

definition own_property_keys :: "(string \<times> pref) list \<Rightarrow> string list" where
  "own_property_keys al =
     sort_key decimal (filter is_array_index (map fst al))
     @ filter (\<lambda>k. \<not> is_array_index k) (map fst al)"

text \<open>
  The enumerable properties a participant object brings when it is the prototype: the
  two fields of the object, then \<open>send\<close> and \<open>receive\<close> of \<open>Participant.prototype\<close>.
\<close>

definition participant_keys :: "string list" where
  "participant_keys = [''name'', ''chatroom'', ''send'', ''receive'']"

text \<open>
  \<open>for (key in participants)\<close>: the own keys, then the keys of the prototype chain
  that no own property has (\<open>Object.prototype\<close> has no enumerable property).
\<close>

definition inherited_keys :: "registry \<Rightarrow> string list" where
  "inherited_keys r =
     (case proto r of
        None \<Rightarrow> []
      | Some p \<Rightarrow> filter (\<lambda>k. map_of (own r) k = None) participant_keys)"

definition for_in_keys :: "registry \<Rightarrow> string list" where
  "for_in_keys r = own_property_keys (own r) @ inherited_keys r"

text \<open>
  \<open>participants[k] = v\<close> on a key the object has, or a key other than \<open>__proto__\<close>: the
  value of an existing property is replaced where it is, a new property is created
  after the existing ones.
\<close>

fun set_property :: "string \<Rightarrow> pref \<Rightarrow> (string \<times> pref) list \<Rightarrow> (string \<times> pref) list" where
  "set_property k v [] = [(k, v)]"
| "set_property k v ((k', v') # al) =
     (if k' = k then (k, v) # al else (k', v') # set_property k v al)"

subsection \<open>The operations\<close>

text \<open>
  \<open>register\<close>: \<open>participants[participant.name] = participant; participant.chatroom = this\<close>.
  The assignment to the key \<open>__proto__\<close>, when the object has no own property of that
  name, reaches the setter of \<open>Object.prototype\<close> and replaces the prototype.
\<close>

definition Chatroom_register :: "cref \<Rightarrow> pref \<Rightarrow> world \<Rightarrow> world result" where
  "Chatroom_register c p s =
     (let key = name (parts s p);
          r = rooms s c;
          r' = (if key = ''__proto__'' \<and> map_of (own r) key = None
                then r\<lparr>proto := Some p\<rparr>
                else r\<lparr>own := set_property key p (own r)\<rparr>)
      in (None, s\<lparr>rooms := (rooms s)(c := r'),
                  parts := (parts s)(p := (parts s p)\<lparr>chatroom := Some c\<rparr>)\<rparr>))"

text \<open>\<open>receive\<close>: \<open>console.log(from.name + " to " + this.name + ": " + message)\<close>\<close>

definition Participant_receive :: "pref \<Rightarrow> string \<Rightarrow> pref \<Rightarrow> world \<Rightarrow> world" where
  "Participant_receive this message from s =
     s\<lparr>calls := calls s @ [(this, message, from)],
       console := console s
         @ [name (parts s from) @ '' to '' @ name (parts s this) @ '': '' @ message]\<rparr>"

text \<open>
  The loop of the broadcast, over the keys \<open>for ... in\<close> enumerates. For an own key,
  \<open>participants[key]\<close> is the participant stored there. For an inherited key it is a
  field of the prototype participant or a function of \<open>Participant.prototype\<close>: it is
  not \<open>from\<close> and it has no \<open>receive\<close>, so the call throws a \<open>TypeError\<close>.
\<close>

fun broadcast :: "cref \<Rightarrow> string \<Rightarrow> pref \<Rightarrow> string list \<Rightarrow> world \<Rightarrow> world result" where
  "broadcast c message from [] s = (None, s)"
| "broadcast c message from (key # keys) s =
     (case map_of (own (rooms s c)) key of
        None \<Rightarrow> (Some TypeError, s)
      | Some v \<Rightarrow>
          (if v \<noteq> from then broadcast c message from keys (Participant_receive v message from s)
           else broadcast c message from keys s))"

text \<open>
  \<open>send\<close> of the chatroom. \<open>from\<close> is a participant. \<open>to\<close> is \<open>None\<close> when the argument
  is \<open>null\<close>, \<open>undefined\<close> or left out (\<open>if (to)\<close> is false), and \<open>Some t\<close> for the
  participant \<open>t\<close>.
\<close>

definition Chatroom_send :: "cref \<Rightarrow> string \<Rightarrow> pref \<Rightarrow> pref option \<Rightarrow> world \<Rightarrow> world result" where
  "Chatroom_send c message from to s =
     (case to of
        Some t \<Rightarrow> (None, Participant_receive t message from s)
      | None \<Rightarrow> broadcast c message from (for_in_keys (rooms s c)) s)"

text \<open>
  \<open>send\<close> of a participant: \<open>this.chatroom.send(message, this, to)\<close>. A participant that
  was never registered has \<open>chatroom = null\<close>, and the call throws a \<open>TypeError\<close>.
\<close>

definition Participant_send :: "pref \<Rightarrow> string \<Rightarrow> pref option \<Rightarrow> world \<Rightarrow> world result" where
  "Participant_send this message to s =
     (case chatroom (parts s this) of
        None \<Rightarrow> (Some TypeError, s)
      | Some c \<Rightarrow> Chatroom_send c message this to s)"

text \<open>
  A script of calls, as \<open>run\<close> is: it goes on to the next call while no exception is
  thrown.
\<close>

datatype call =
    Register cref pref
  | Send cref string pref "pref option"
  | ParticipantSend pref string "pref option"

fun do_call :: "call \<Rightarrow> world \<Rightarrow> world result" where
  "do_call (Register c p) s = Chatroom_register c p s"
| "do_call (Send c message from to) s = Chatroom_send c message from to s"
| "do_call (ParticipantSend p message to) s = Participant_send p message to s"

fun script :: "call list \<Rightarrow> world \<Rightarrow> world result" where
  "script [] s = (None, s)"
| "script (x # xs) s =
     (case do_call x s of
        (None, s') \<Rightarrow> script xs s'
      | (Some e, s') \<Rightarrow> (Some e, s'))"

text \<open>
  The heap before any object is made, and three heaps for the examples, each with the chatroom 0 and participants that are not
  registered yet: the four of \<open>run\<close>; two participants of the same name \<open>A\<close> and a
  third one; and three participants of which two have numerals as names.
\<close>

definition empty_world :: world where
  "empty_world =
     \<lparr>parts = (\<lambda>_. Participant []), rooms = (\<lambda>_. Chatroom), calls = [], console = []\<rparr>"

definition beatles :: world where
  "beatles =
     new_Chatroom 0
       (new_Participant 4 ''Ringo''
         (new_Participant 3 ''Paul''
           (new_Participant 2 ''John''
             (new_Participant 1 ''Yoko'' empty_world))))"

definition namesakes :: world where
  "namesakes =
     new_Chatroom 0
       (new_Participant 3 ''B''
         (new_Participant 2 ''A''
           (new_Participant 1 ''A'' empty_world)))"

definition numbered :: world where
  "numbered =
     new_Chatroom 0
       (new_Participant 3 ''1''
         (new_Participant 2 ''2''
           (new_Participant 1 ''b'' empty_world)))"

text \<open>The \<open>run\<close> of the mediator example, on the heap \<open>beatles\<close>.\<close>

definition run :: "world result" where
  "run =
     script
       [Register 0 1, Register 0 2, Register 0 3, Register 0 4,
        ParticipantSend 1 ''All you need is love.'' None,
        ParticipantSend 1 ''I love you John.'' None,
        ParticipantSend 2 ''Hey, no need to broadcast'' (Some 1),
        ParticipantSend 3 ''Ha, I heard that!'' None,
        ParticipantSend 4 ''Paul, what do you think?'' (Some 3)]
       beatles"

text \<open>
  The participants a broadcast from \<open>from\<close> delivers to, in order: the values of the own
  properties in enumeration order that are not the object \<open>from\<close>.
\<close>

definition recipients :: "registry \<Rightarrow> pref \<Rightarrow> pref list" where
  "recipients r from =
     filter (\<lambda>v. v \<noteq> from) (List.map_filter (map_of (own r)) (own_property_keys (own r)))"

text \<open>Calling \<open>receive\<close> on each participant of a list in turn.\<close>

definition deliver :: "pref list \<Rightarrow> string \<Rightarrow> pref \<Rightarrow> world \<Rightarrow> world" where
  "deliver vs message from s = foldl (\<lambda>s' v. Participant_receive v message from s') s vs"


section \<open>Observer: the dispatch loop\<close>

lemma subscribe_keeps: "keeps a L s \<Longrightarrow> keeps a L (subscribe v s)"
  by (auto simp: keeps_def subscribe_def)

lemma unsubscribe_keeps: "keeps a L s \<Longrightarrow> keeps a L (unsubscribe v s)"
  by (auto simp: keeps_def unsubscribe_def)

lemma exec_keeps: "keeps a L s \<Longrightarrow> keeps a L (snd (exec as s))"
proof (induction as s rule: exec.induct)
  case (4 l as s)
  then show ?case by (simp add: keeps_def)
qed (simp_all add: subscribe_keeps unsubscribe_keeps)

lemma exec_invoked: "invoked (snd (exec as s)) = invoked s"
  by (induction as s rule: exec.induct) (simp_all add: subscribe_def unsubscribe_def)

lemma exec_no_throw: "no_throw as \<Longrightarrow> fst (exec as s) = None"
  by (induction as s rule: exec.induct) simp_all

lemma call_item_quiet:
  assumes "keeps a L s" and "no_throw (P f sc ev)"
  shows "fst (call_item P sc ev (JSFun f) s) = None
       \<and> invoked (snd (call_item P sc ev (JSFun f) s)) = invoked s @ [(f, sc, ev)]
       \<and> keeps a L (snd (call_item P sc ev (JSFun f) s))"
proof -
  let ?s = "s\<lparr>invoked := invoked s @ [(f, sc, ev)]\<rparr>"
  have k: "keeps a L ?s" using assms(1) by (simp add: keeps_def)
  show ?thesis
    using exec_keeps [OF k, of "P f sc ev"] exec_no_throw [OF assms(2), of ?s]
    by (simp add: call_item_def exec_invoked)
qed

lemma forEach_quiet:
  assumes "keeps a (map JSFun fs) s"
    and "list_all (\<lambda>k. k < length fs \<and> no_throw (P (fs ! k) sc ev)) ks"
  shows "fst (forEach P sc ev a ks s) = None
       \<and> invoked (snd (forEach P sc ev a ks s)) = invoked s @ map (\<lambda>k. (fs ! k, sc, ev)) ks
       \<and> keeps a (map JSFun fs) (snd (forEach P sc ev a ks s))"
  using assms
proof (induction ks arbitrary: s)
  case Nil
  then show ?case by simp
next
  case (Cons k ks)
  from Cons.prems(2) have k: "k < length fs" and q: "no_throw (P (fs ! k) sc ev)"
    and rest: "list_all (\<lambda>k. k < length fs \<and> no_throw (P (fs ! k) sc ev)) ks"
    by simp_all
  from Cons.prems(1) obtain ys where ys: "arrays s a = map JSFun fs @ ys"
    by (auto simp: keeps_def)
  have len: "k < length (arrays s a)" using k ys by simp
  have item: "arrays s a ! k = JSFun (fs ! k)" using k ys by (simp add: nth_append)
  obtain s' where s': "call_item P sc ev (JSFun (fs ! k)) s = (None, s')"
    using call_item_quiet [of a "map JSFun fs" s P "fs ! k" sc ev] Cons.prems(1) q by (cases "call_item P sc ev (JSFun (fs ! k)) s") auto
  have inv: "invoked s' = invoked s @ [(fs ! k, sc, ev)]" and keep: "keeps a (map JSFun fs) s'"
    using call_item_quiet [of a "map JSFun fs" s P "fs ! k" sc ev] Cons.prems(1) q s' by simp_all
  have step: "forEach P sc ev a (k # ks) s = forEach P sc ev a ks s'"
    using len item s' by simp
  show ?case
    using Cons.IH [OF keep rest] inv by (simp only: step) simp
qed

lemma forEach_append:
  "forEach P sc ev a (ks @ ks') s =
     (case forEach P sc ev a ks s of
        (None, s') \<Rightarrow> forEach P sc ev a ks' s'
      | (Some e, s') \<Rightarrow> (Some e, s'))"
  by (induction ks arbitrary: s) (auto split: prod.splits option.splits)

lemma exec_throws:
  "no_throw pre \<Longrightarrow> fst (exec (pre @ ThrowStmt v # post) s) = Some (Thrown v)"
  by (induction pre s rule: exec.induct) simp_all

text \<open>
  The array \<open>this.handlers\<close> refers to is an allocated one: so it is for a new \<open>Click\<close>,
  and every operation keeps it so.
\<close>

lemma Click_allocated: "handlers Click < next_ref Click"
  by (simp add: Click_def)

lemma exec_allocated:
  "handlers s < next_ref s \<Longrightarrow> handlers (snd (exec as s)) < next_ref (snd (exec as s))"
  by (induction as s rule: exec.induct) (simp_all add: subscribe_def unsubscribe_def)

lemma call_item_allocated:
  "handlers s < next_ref s \<Longrightarrow>
   handlers (snd (call_item P sc ev item s)) < next_ref (snd (call_item P sc ev item s))"
  by (cases item) (simp_all add: call_item_def exec_allocated)

lemma forEach_allocated:
  "handlers s < next_ref s \<Longrightarrow>
   handlers (snd (forEach P sc ev a ks s)) < next_ref (snd (forEach P sc ev a ks s))"
proof (induction ks arbitrary: s)
  case Nil
  then show ?case by simp
next
  case (Cons k ks)
  obtain e s' where r: "call_item P sc ev (arrays s a ! k) s = (e, s')"
    by (cases "call_item P sc ev (arrays s a ! k) s")
  have s': "handlers s' < next_ref s'"
    using call_item_allocated [OF Cons.prems, of P sc ev "arrays s a ! k"] r by simp
  show ?case
    using Cons.IH [OF Cons.prems] Cons.IH [OF s'] s' r by (cases e) simp_all
qed

lemma fire_allocated:
  "handlers s < next_ref s \<Longrightarrow>
   handlers (snd (fire P ev thisObj s)) < next_ref (snd (fire P ev thisObj s))"
  by (simp add: fire_def forEach_allocated)

text \<open>
  Claim C8, as amended. \<open>fire\<close> dispatches against the handlers present when it is
  invoked. When every entry of the array is a function and no handler throws, the
  handlers may call \<open>subscribe\<close> and \<open>unsubscribe\<close> (of themselves or of any other
  handler) in any order while they run: every handler of the array is invoked, once
  for each place it has in the array and in the order of the array, and the pass ends
  normally.
\<close>

theorem fire_snapshot:
  assumes "handlers s < next_ref s"
    and "handler_list s = map JSFun fs"
    and "list_all (\<lambda>f. no_throw (P f (fire_scope thisObj) ev)) fs"
  shows "fst (fire P ev thisObj s) = None
       \<and> invoked (snd (fire P ev thisObj s)) = invoked s @ map (\<lambda>f. (f, fire_scope thisObj, ev)) fs"
proof -
  let ?sc = "fire_scope thisObj"
  have k: "keeps (handlers s) (map JSFun fs) s"
    using assms(1,2) by (simp add: keeps_def handler_list_def)
  have q: "list_all (\<lambda>k. k < length fs \<and> no_throw (P (fs ! k) ?sc ev)) [0..<length fs]"
    using assms(3) by (simp add: list_all_iff)
  have m: "map (\<lambda>k. (fs ! k, ?sc, ev)) [0..<length fs] = map (\<lambda>f. (f, ?sc, ev)) fs"
    by (rule nth_equalityI) simp_all
  have l: "length (arrays s (handlers s)) = length fs"
    using assms(2) by (simp add: handler_list_def)
  show ?thesis
    using forEach_quiet [of "handlers s" fs s P ?sc ev "[0..<length fs]"] k q
    by (simp add: fire_def l m)
qed

text \<open>
  The handlers \<open>[f0, f1, f2]\<close>, where \<open>f0\<close> unsubscribes itself and \<open>f1\<close> and subscribes
  \<open>f3\<close>: the pass still invokes \<open>f0\<close>, \<open>f1\<close> and \<open>f2\<close>, and leaves \<open>[f2, f3]\<close> subscribed.
\<close>

theorem fire_snapshot_witness:
  "fst (fire unsubscribing_program (JSStr ''e'') JSUndefined
          (subscribe (JSFun 2) (subscribe (JSFun 1) (subscribe (JSFun 0) Click)))) = None
   \<and> invoked (snd (fire unsubscribing_program (JSStr ''e'') JSUndefined
          (subscribe (JSFun 2) (subscribe (JSFun 1) (subscribe (JSFun 0) Click)))))
     = [(0, GlobalObject, JSStr ''e''), (1, GlobalObject, JSStr ''e''), (2, GlobalObject, JSStr ''e'')]
   \<and> handler_list (snd (fire unsubscribing_program (JSStr ''e'') JSUndefined
          (subscribe (JSFun 2) (subscribe (JSFun 1) (subscribe (JSFun 0) Click)))))
     = [JSFun 2, JSFun 3]"
proof -
  let ?s = "subscribe (JSFun 2) (subscribe (JSFun 1) (subscribe (JSFun 0) Click))"
  have "handler_list (snd (fire unsubscribing_program (JSStr ''e'') JSUndefined ?s))
     = [JSFun 2, JSFun 3]"
    by (simp add: fire_def fire_scope_def Click_def subscribe_def unsubscribe_def call_item_def
      unsubscribing_program_def upt_conv_Cons handler_list_def unsubscribe_callback_def)
  then show ?thesis
    using fire_snapshot [of ?s "[0, 1, 2]" unsubscribing_program JSUndefined "JSStr ''e''"]
    by (simp add: handler_list_def fire_scope_def Click_def subscribe_def unsubscribing_program_def)
qed

text \<open>
  Claim C8 as stated fails: with the handlers \<open>[f0, f1]\<close>, where \<open>f0\<close> unsubscribes
  itself and then throws, the pass ends with the exception and \<open>f1\<close>, present when the
  pass started, is never invoked.
\<close>

theorem fire_snapshot_counterexample:
  "handler_list (subscribe (JSFun 1) (subscribe (JSFun 0) Click)) = [JSFun 0, JSFun 1]
   \<and> fst (fire unsubscribe_then_throw_program (JSStr ''e'') JSUndefined
          (subscribe (JSFun 1) (subscribe (JSFun 0) Click))) = Some (Thrown (JSNum 7))
   \<and> invoked (snd (fire unsubscribe_then_throw_program (JSStr ''e'') JSUndefined
          (subscribe (JSFun 1) (subscribe (JSFun 0) Click)))) = [(0, GlobalObject, JSStr ''e'')]"
  by (simp add: fire_def fire_scope_def Click_def subscribe_def unsubscribe_def call_item_def
      unsubscribe_then_throw_program_def upt_conv_Cons handler_list_def unsubscribe_callback_def)

text \<open>A handler that throws: the statements before the first \<open>throw\<close> run, then the call ends.\<close>

lemma call_item_throws:
  assumes "P g sc ev = pre @ ThrowStmt v # post" and "no_throw pre"
  shows "fst (call_item P sc ev (JSFun g) s) = Some (Thrown v)
       \<and> invoked (snd (call_item P sc ev (JSFun g) s)) = invoked s @ [(g, sc, ev)]"
  using assms by (simp add: call_item_def exec_invoked exec_throws)

text \<open>
  Claim C2, as amended. \<open>fire\<close> has no \<open>try\<close>: when a handler throws, the exception
  leaves \<open>forEach\<close> and \<open>fire\<close> and reaches the caller. The handlers before the
  throwing one and the throwing one itself have been invoked, the handlers after it
  (\<open>rest\<close>) are not.
\<close>

theorem fire_propagates:
  assumes "handlers s < next_ref s"
    and "handler_list s = map JSFun fs @ JSFun g # rest"
    and "list_all (\<lambda>f. no_throw (P f (fire_scope thisObj) ev)) fs"
    and "P g (fire_scope thisObj) ev = pre @ ThrowStmt v # post"
    and "no_throw pre"
  shows "fst (fire P ev thisObj s) = Some (Thrown v)
       \<and> invoked (snd (fire P ev thisObj s)) =
           invoked s @ map (\<lambda>f. (f, fire_scope thisObj, ev)) (fs @ [g])"
proof -
  let ?sc = "fire_scope thisObj"
  let ?a = "handlers s"
  let ?n = "length fs"
  let ?gs = "fs @ [g]"
  have arr: "arrays s ?a = map JSFun ?gs @ rest"
    using assms(2) by (simp add: handler_list_def)
  have k: "keeps ?a (map JSFun ?gs) s"
    using assms(1) arr by (simp add: keeps_def)
  have q: "list_all (\<lambda>k. k < length ?gs \<and> no_throw (P (?gs ! k) ?sc ev)) [0..<?n]"
    using assms(3) by (simp add: list_all_iff nth_append)
  have m: "map (\<lambda>k. (?gs ! k, ?sc, ev)) [0..<?n] = map (\<lambda>f. (f, ?sc, ev)) fs"
    by (rule nth_equalityI) (simp_all add: nth_append)
  obtain r1 s1 where run1: "forEach P ?sc ev ?a [0..<?n] s = (r1, s1)"
    by (cases "forEach P ?sc ev ?a [0..<?n] s")
  have r1: "r1 = None" and inv1: "invoked s1 = invoked s @ map (\<lambda>f. (f, ?sc, ev)) fs"
    and k1: "keeps ?a (map JSFun ?gs) s1"
    using forEach_quiet [of ?a ?gs s P ?sc ev "[0..<?n]"] k q run1 m by simp_all
  from k1 obtain ys where ys: "arrays s1 ?a = map JSFun ?gs @ ys"
    by (auto simp: keeps_def)
  have len1: "?n < length (arrays s1 ?a)" using ys by simp
  have item1: "arrays s1 ?a ! ?n = JSFun g"
    using ys by (simp add: nth_append)
  have len: "length (arrays s ?a) = ?n + Suc (length rest)"
    using arr by simp
  have "[0..<?n + Suc (length rest)] = [0..<?n] @ [?n..<?n + Suc (length rest)]"
    by (rule upt_add_eq_append) simp
  moreover have "[?n..<?n + Suc (length rest)] = ?n # [Suc ?n..<?n + Suc (length rest)]"
    by (rule upt_conv_Cons) simp
  ultimately have idx:
    "[0..<length (arrays s ?a)] = [0..<?n] @ ?n # [Suc ?n..<length (arrays s ?a)]"
    by (simp only: len)
  have thr: "fst (call_item P ?sc ev (JSFun g) s1) = Some (Thrown v)
       \<and> invoked (snd (call_item P ?sc ev (JSFun g) s1)) = invoked s1 @ [(g, ?sc, ev)]"
    using call_item_throws [of P g ?sc ev pre v post s1] assms(4,5) by simp
  obtain s2 where s2: "call_item P ?sc ev (JSFun g) s1 = (Some (Thrown v), s2)"
    using thr by (cases "call_item P ?sc ev (JSFun g) s1") simp
  have step: "forEach P ?sc ev ?a (?n # ks) s1 = call_item P ?sc ev (JSFun g) s1" for ks
    by (simp add: len1 item1 s2)
  have "fire P ev thisObj s
      = forEach P ?sc ev ?a ([0..<?n] @ ?n # [Suc ?n..<length (arrays s ?a)]) s"
    unfolding fire_def by (subst idx) (rule refl)
  also have "\<dots> = forEach P ?sc ev ?a (?n # [Suc ?n..<length (arrays s ?a)]) s1"
    by (simp only: forEach_append run1 r1 prod.case option.case)
  also have "\<dots> = call_item P ?sc ev (JSFun g) s1"
    by (rule step)
  finally show ?thesis
    using thr inv1 by simp
qed

text \<open>The handlers \<open>[f1, f0, f2]\<close>: \<open>f1\<close> logs, \<open>f0\<close> throws, \<open>f2\<close> is not reached.\<close>

theorem fire_propagates_witness:
  "fst (fire throwing_program (JSStr ''e'') JSUndefined
          (subscribe (JSFun 2) (subscribe (JSFun 0) (subscribe (JSFun 1) Click))))
     = Some (Thrown (JSStr ''boom''))
   \<and> invoked (snd (fire throwing_program (JSStr ''e'') JSUndefined
          (subscribe (JSFun 2) (subscribe (JSFun 0) (subscribe (JSFun 1) Click)))))
     = [(1, GlobalObject, JSStr ''e''), (0, GlobalObject, JSStr ''e'')]"
  using fire_propagates [of "subscribe (JSFun 2) (subscribe (JSFun 0) (subscribe (JSFun 1) Click))"
      "[1]" 0 "[JSFun 2]" throwing_program JSUndefined "JSStr ''e''" "[]" "JSStr ''boom''" "[]"]
  by (simp add: handler_list_def fire_scope_def Click_def subscribe_def throwing_program_def)

text \<open>
  Claim C2 as stated fails: with the handlers \<open>[f0, f1]\<close>, where \<open>f0\<close> throws, \<open>fire\<close>
  returns the exception to its caller and \<open>f1\<close> is never invoked.
\<close>

theorem fire_isolation_counterexample:
  "fst (fire throwing_program (JSStr ''e'') JSUndefined
          (subscribe (JSFun 1) (subscribe (JSFun 0) Click))) = Some (Thrown (JSStr ''boom''))
   \<and> invoked (snd (fire throwing_program (JSStr ''e'') JSUndefined
          (subscribe (JSFun 1) (subscribe (JSFun 0) Click)))) = [(0, GlobalObject, JSStr ''e'')]"
  by (simp add: fire_def fire_scope_def Click_def subscribe_def call_item_def
      throwing_program_def upt_conv_Cons)

lemma unsubscribe_list:
  "handler_list (unsubscribe fn s) = filter (\<lambda>item. item \<noteq> fn \<and> truthy item) (handler_list s)"
proof -
  have "truthy (unsubscribe_callback fn item) = (item \<noteq> fn \<and> truthy item)" for item
    by (simp add: unsubscribe_callback_def)
  then show ?thesis by (simp add: handler_list_def unsubscribe_def)
qed

lemma subscribe_list: "handler_list (subscribe fn s) = handler_list s @ [fn]"
  by (simp add: handler_list_def subscribe_def)

text \<open>
  Claim C9. \<open>unsubscribe\<close> keeps exactly the entries that differ from \<open>fn\<close> (and are
  truthy, as every function is): no entry equal to \<open>fn\<close> is left, however many times
  \<open>fn\<close> was subscribed, and a second \<open>unsubscribe\<close> of \<open>fn\<close> leaves the same list.
\<close>

theorem unsubscribe_removes_all:
  "handler_list (unsubscribe fn s) = filter (\<lambda>item. item \<noteq> fn \<and> truthy item) (handler_list s)
   \<and> count_list (handler_list (unsubscribe fn ((subscribe fn ^^ n) s))) fn = 0
   \<and> handler_list (unsubscribe fn (unsubscribe fn s)) = handler_list (unsubscribe fn s)"
proof -
  have "count_list (filter (\<lambda>item. item \<noteq> fn \<and> truthy item) xs) fn = 0" for xs
    by (induction xs) simp_all
  moreover have "filter (\<lambda>item. item \<noteq> fn \<and> truthy item) (filter (\<lambda>item. item \<noteq> fn \<and> truthy item) xs)
      = filter (\<lambda>item. item \<noteq> fn \<and> truthy item) xs" for xs
    by (induction xs) simp_all
  ultimately show ?thesis by (simp add: unsubscribe_list)
qed

section \<open>Mediator: registry and delivery\<close>

lemma receive_fields [simp]:
  "rooms (Participant_receive v m f s) = rooms s"
  "parts (Participant_receive v m f s) = parts s"
  "calls (Participant_receive v m f s) = calls s @ [(v, m, f)]"
  by (simp_all add: Participant_receive_def)

lemma deliver_Nil [simp]: "deliver [] m f s = s"
  by (simp add: deliver_def)

lemma deliver_Cons [simp]: "deliver (v # vs) m f s = deliver vs m f (Participant_receive v m f s)"
  by (simp add: deliver_def)

lemma deliver_rooms [simp]: "rooms (deliver vs m f s) = rooms s"
  by (induction vs arbitrary: s) simp_all

lemma deliver_parts [simp]: "parts (deliver vs m f s) = parts s"
  by (induction vs arbitrary: s) simp_all

lemma deliver_calls: "calls (deliver vs m f s) = calls s @ map (\<lambda>v. (v, m, f)) vs"
  by (induction vs arbitrary: s) simp_all

text \<open>
  The broadcast loop on the own keys: every key has a participant, the ones that are
  not the object \<open>from\<close> receive the message.
\<close>

lemma broadcast_own:
  "list_all (\<lambda>k. map_of (own (rooms s c)) k \<noteq> None) ks \<Longrightarrow>
   broadcast c m f (ks @ rest) s =
     broadcast c m f rest
       (deliver (filter (\<lambda>v. v \<noteq> f) (List.map_filter (map_of (own (rooms s c))) ks)) m f s)"
proof (induction ks arbitrary: s)
  case Nil
  then show ?case by (simp add: List.map_filter_simps)
next
  case (Cons k ks)
  then obtain v where v: "map_of (own (rooms s c)) k = Some v" by auto
  from Cons.prems have rest: "list_all (\<lambda>k. map_of (own (rooms s c)) k \<noteq> None) ks" by simp
  show ?case
  proof (cases "v = f")
    case True
    then show ?thesis using Cons.IH [OF rest] v by (simp add: List.map_filter_simps)
  next
    case False
    have "list_all (\<lambda>k. map_of (own (rooms (Participant_receive v m f s) c)) k \<noteq> None) ks"
      using rest by simp
    from Cons.IH [OF this] show ?thesis using v False by (simp add: List.map_filter_simps)
  qed
qed

lemma broadcast_inherited:
  "list_all (\<lambda>k. map_of (own (rooms s c)) k = None) ks \<Longrightarrow>
   broadcast c m f ks s = (if ks = [] then None else Some TypeError, s)"
  by (cases ks) simp_all

lemma set_own_property_keys: "set (own_property_keys al) = fst ` set al"
  by (auto simp: own_property_keys_def)

lemma own_keys_present: "list_all (\<lambda>k. map_of al k \<noteq> None) (own_property_keys al)"
  by (simp add: list_all_iff set_own_property_keys map_of_eq_None_iff)

lemma inherited_absent: "list_all (\<lambda>k. map_of (own r) k = None) (inherited_keys r)"
  by (simp add: inherited_keys_def list_all_iff split: option.splits)

text \<open>
  The whole broadcast: the own entries are served; after them, a key inherited from a
  participant that was made the prototype ends the loop with a \<open>TypeError\<close>.
\<close>

lemma broadcast_result:
  "Chatroom_send c m f None s =
     (if inherited_keys (rooms s c) = [] then None else Some TypeError,
      deliver (recipients (rooms s c) f) m f s)"
proof -
  let ?r = "rooms s c"
  let ?s' = "deliver (recipients ?r f) m f s"
  have "Chatroom_send c m f None s = broadcast c m f (inherited_keys ?r) ?s'"
    using broadcast_own [of s c "own_property_keys (own ?r)" m f "inherited_keys ?r"]
      own_keys_present [of "own ?r"]
    by (simp add: Chatroom_send_def for_in_keys_def recipients_def)
  moreover have "list_all (\<lambda>k. map_of (own (rooms ?s' c)) k = None) (inherited_keys ?r)"
    using inherited_absent [of ?r] by simp
  ultimately show ?thesis by (simp add: broadcast_inherited)
qed

lemma set_map_filter: "set (List.map_filter g ks) = {v. \<exists>k. k \<in> set ks \<and> g k = Some v}"
  by (induction ks) (auto simp: List.map_filter_simps split: option.splits)

lemma set_recipients: "set (recipients r f) = ran (map_of (own r)) - {f}"
proof -
  have "{v. \<exists>k. k \<in> fst ` set (own r) \<and> map_of (own r) k = Some v} = ran (map_of (own r))"
  proof (rule set_eqI)
    fix v
    have "map_of (own r) k = Some v \<Longrightarrow> k \<in> fst ` set (own r)" for k
      by (drule map_of_SomeD) force
    then show "v \<in> {v. \<exists>k. k \<in> fst ` set (own r) \<and> map_of (own r) k = Some v}
        \<longleftrightarrow> v \<in> ran (map_of (own r))"
      unfolding ran_def by blast
  qed
  then show ?thesis
    by (auto simp: recipients_def set_map_filter set_own_property_keys)
qed

lemma set_property_absent: "map_of al k = None \<Longrightarrow> set_property k v al = al @ [(k, v)]"
  by (induction al) (auto split: if_splits)

lemma set_property_keys: "map_of al k \<noteq> None \<Longrightarrow> map fst (set_property k v al) = map fst al"
  by (induction al) auto

lemma map_of_set_property: "map_of (set_property k v al) k' = (if k' = k then Some v else map_of al k')"
  by (induction al) auto

lemma set_property_key_set: "fst ` set (set_property k v al) = insert k (fst ` set al)"
proof (induction al)
  case Nil
  then show ?case by simp
next
  case (Cons kv al)
  obtain k' v' where kv: "kv = (k', v')" by (cases kv)
  show ?case
  proof (cases "k' = k")
    case True
    then show ?thesis by (simp add: kv)
  next
    case False
    then show ?thesis using Cons.IH by (simp add: kv insert_commute)
  qed
qed

lemma register_fields:
  "fst (Chatroom_register c p s) = None"
  "parts (snd (Chatroom_register c p s)) = (parts s)(p := (parts s p)\<lparr>chatroom := Some c\<rparr>)"
  "calls (snd (Chatroom_register c p s)) = calls s"
  "console (snd (Chatroom_register c p s)) = console s"
  "rooms (snd (Chatroom_register c p s)) =
     (rooms s)(c :=
       (if name (parts s p) = ''__proto__'' \<and> map_of (own (rooms s c)) (name (parts s p)) = None
        then (rooms s c)\<lparr>proto := Some p\<rparr>
        else (rooms s c)\<lparr>own := set_property (name (parts s p)) p (own (rooms s c))\<rparr>))"
  by (simp_all add: Chatroom_register_def Let_def)

lemma register_name: "name (parts (snd (Chatroom_register c p s)) q) = name (parts s q)"
  by (simp add: register_fields)

lemma script_append:
  "script (xs @ ys) s =
     (case script xs s of (None, s') \<Rightarrow> script ys s' | (Some e, s') \<Rightarrow> (Some e, s'))"
  by (induction xs arbitrary: s) (auto split: prod.splits option.splits)

lemma script_Register:
  "script (Register c p # xs) s = script xs (snd (Chatroom_register c p s))"
  using register_fields(1) [of c p s] by (cases "Chatroom_register c p s") simp

lemma register_all:
  assumes "distinct (map fst (own (rooms s c)) @ map (\<lambda>p. name (parts s p)) ps)"
    and "list_all (\<lambda>p. name (parts s p) \<noteq> ''__proto__'') ps"
  shows "fst (script (map (Register c) ps) s) = None
       \<and> own (rooms (snd (script (map (Register c) ps) s)) c)
           = own (rooms s c) @ map (\<lambda>p. (name (parts s p), p)) ps
       \<and> proto (rooms (snd (script (map (Register c) ps) s)) c) = proto (rooms s c)
       \<and> (\<forall>q. name (parts (snd (script (map (Register c) ps) s)) q) = name (parts s q))
       \<and> calls (snd (script (map (Register c) ps) s)) = calls s"
  using assms
proof (induction ps arbitrary: s)
  case Nil
  then show ?case by simp
next
  case (Cons p ps)
  let ?s1 = "snd (Chatroom_register c p s)"
  let ?k = "name (parts s p)"
  from Cons.prems(1) have absent: "map_of (own (rooms s c)) ?k = None"
    by (simp add: map_of_eq_None_iff)
  from Cons.prems(2) have np: "?k \<noteq> ''__proto__''" by simp
  have own1: "own (rooms ?s1 c) = own (rooms s c) @ [(?k, p)]"
    using absent np by (simp add: register_fields set_property_absent)
  have proto1: "proto (rooms ?s1 c) = proto (rooms s c)"
    using np by (simp add: register_fields)
  have nm: "name (parts ?s1 q) = name (parts s q)" for q
    by (rule register_name)
  have calls1: "calls ?s1 = calls s"
    by (rule register_fields)
  have d1: "distinct (map fst (own (rooms ?s1 c)) @ map (\<lambda>q. name (parts ?s1 q)) ps)"
    using Cons.prems(1) by (simp add: own1 nm)
  have n1: "list_all (\<lambda>q. name (parts ?s1 q) \<noteq> ''__proto__'') ps"
    using Cons.prems(2) by (simp add: nm)
  have step: "script (map (Register c) (p # ps)) s = script (map (Register c) ps) ?s1"
    by (simp only: list.map script_Register)
  from Cons.IH [OF d1 n1] show ?case
    unfolding step by (simp add: own1 proto1 nm calls1)
qed

lemma map_filter_agree:
  "(\<And>x. x \<in> set xs \<Longrightarrow> g x = h x) \<Longrightarrow> List.map_filter g xs = List.map_filter h xs"
  by (induction xs) (auto simp: List.map_filter_simps split: option.splits)

lemma map_filter_distinct:
  "distinct (map fst al) \<Longrightarrow> List.map_filter (map_of al) (map fst al) = map snd al"
proof (induction al)
  case Nil
  then show ?case by (simp add: List.map_filter_simps)
next
  case (Cons kv al)
  obtain k v where kv: "kv = (k, v)" by (cases kv)
  from Cons.prems kv have k: "k \<notin> fst ` set al" and d: "distinct (map fst al)" by simp_all
  have "List.map_filter (map_of (kv # al)) (map fst (kv # al))
      = v # List.map_filter (map_of (kv # al)) (map fst al)"
    by (simp add: kv List.map_filter_simps)
  also have "List.map_filter (map_of (kv # al)) (map fst al)
      = List.map_filter (map_of al) (map fst al)"
    by (rule map_filter_agree) (use k kv in auto)
  also have "\<dots> = map snd al" by (rule Cons.IH [OF d])
  finally show ?case by (simp add: kv)
qed

text \<open>The definitions a concrete run unfolds.\<close>

lemmas world_defs =
  new_Chatroom_def new_Participant_def empty_world_def Participant_def Chatroom_def

lemmas key_defs =
  for_in_keys_def inherited_keys_def own_property_keys_def is_array_index_def is_digit_def
  decimal_def

lemmas op_defs =
  Chatroom_register_def Participant_send_def Chatroom_send_def Participant_receive_def Let_def

text \<open>The example \<open>run\<close> of the source ends normally and prints these lines.\<close>

lemma run_console:
  "fst run = None
   \<and> console (snd run) =
     [''Yoko to John: All you need is love.'',
      ''Yoko to Paul: All you need is love.'',
      ''Yoko to Ringo: All you need is love.'',
      ''Yoko to John: I love you John.'',
      ''Yoko to Paul: I love you John.'',
      ''Yoko to Ringo: I love you John.'',
      ''John to Yoko: Hey, no need to broadcast'',
      ''Paul to Yoko: Ha, I heard that!'',
      ''Paul to John: Ha, I heard that!'',
      ''Paul to Ringo: Ha, I heard that!'',
      ''Ringo to Paul: Paul, what do you think?'']"
  by (simp add: run_def beatles_def world_defs op_defs key_defs)

text \<open>
  Claim C4. \<open>send(msg, A, B)\<close> with a participant \<open>B\<close>, registered or not, returns
  normally after exactly one call \<open>B.receive(msg, A)\<close>, which writes one line; no other
  \<open>receive\<close> is called, and the registry plays no part: with any other registry in
  place of the current one the result is the same.
\<close>

theorem unicast_direct:
  "Chatroom_send c message a (Some b) s =
     (None, s\<lparr>calls := calls s @ [(b, message, a)],
              console := console s
                @ [name (parts s a) @ '' to '' @ name (parts s b) @ '': '' @ message]\<rparr>)
   \<and> Chatroom_send c message a (Some b) (s\<lparr>rooms := R\<rparr>) =
     (None, (snd (Chatroom_send c message a (Some b) s))\<lparr>rooms := R\<rparr>)"
proof -
  have one: "Chatroom_send c message a (Some b) t = (None, Participant_receive b message a t)" for t
    by (simp add: Chatroom_send_def)
  have "Participant_receive b message a (s\<lparr>rooms := R\<rparr>)
      = (Participant_receive b message a s)\<lparr>rooms := R\<rparr>"
    by (simp add: Participant_receive_def)
  then show ?thesis
    by (simp add: one) (simp add: Participant_receive_def)
qed

text \<open>
  Claim C10. \<open>register(p)\<close> returns normally and, besides the registry, changes the
  participant \<open>p\<close> alone, and of \<open>p\<close> only the field \<open>chatroom\<close>, which becomes the
  channel; nothing is delivered. After it, \<open>p.send(msg, to)\<close> is \<open>channel.send(msg, p, to)\<close>.
\<close>

theorem register_sets_chatroom:
  "fst (Chatroom_register c p s) = None
   \<and> parts (snd (Chatroom_register c p s)) = (parts s)(p := (parts s p)\<lparr>chatroom := Some c\<rparr>)
   \<and> calls (snd (Chatroom_register c p s)) = calls s
   \<and> console (snd (Chatroom_register c p s)) = console s
   \<and> Participant_send p message to (snd (Chatroom_register c p s))
       = Chatroom_send c message p to (snd (Chatroom_register c p s))"
proof -
  let ?s' = "snd (Chatroom_register c p s)"
  have "chatroom (parts ?s' p) = Some c"
    by (simp add: register_fields)
  then have "Participant_send p message to ?s' = Chatroom_send c message p to ?s'"
    by (simp add: Participant_send_def)
  then show ?thesis
    by (simp add: register_fields)
qed

text \<open>
  Claim C1, as amended. A broadcast from \<open>from\<close> calls \<open>receive(message, from)\<close> on the
  entries of the registry in enumeration order, leaving out the entries that are the
  object \<open>from\<close> itself (comparison of references, not of names): the participants
  called are those stored in the registry other than \<open>from\<close>, and \<open>from\<close> is never
  called.
\<close>

theorem broadcast_skips_sender_object:
  "calls (snd (Chatroom_send c message from None s))
     = calls s @ map (\<lambda>v. (v, message, from)) (recipients (rooms s c) from)
   \<and> set (recipients (rooms s c) from) = ran (map_of (own (rooms s c))) - {from}
   \<and> from \<notin> set (recipients (rooms s c) from)"
proof -
  have "snd (Chatroom_send c message from None s)
      = deliver (recipients (rooms s c) from) message from s"
    by (simp add: broadcast_result)
  then have "calls (snd (Chatroom_send c message from None s))
      = calls s @ map (\<lambda>v. (v, message, from)) (recipients (rooms s c) from)"
    by (simp add: deliver_calls)
  moreover have "set (recipients (rooms s c) from) = ran (map_of (own (rooms s c))) - {from}"
    by (rule set_recipients)
  ultimately show ?thesis by simp
qed

text \<open>
  Claim C1 as stated fails: the participants 1 and 2 have the same name, 2 replaces 1
  in the registry, and a broadcast from 1 calls \<open>receive\<close> on the entry under that name.
\<close>

theorem broadcast_namesake_counterexample:
  "name (parts namesakes 2) = name (parts namesakes 1)
   \<and> calls (snd (script [Register 0 1, Register 0 2, Register 0 3,
                         ParticipantSend 1 ''hi'' None] namesakes))
       = [(2, ''hi'', 1), (3, ''hi'', 1)]"
  by (simp add: namesakes_def world_defs op_defs key_defs)

text \<open>
  Claim C7, as amended. \<open>send\<close> with a target that is \<open>null\<close>, \<open>undefined\<close> or left out is
  the broadcast: no error is raised for the missing recipient. On a registry whose
  prototype was never replaced it returns normally, having delivered the message to
  every entry that is not the sender object.
\<close>

theorem send_without_target:
  "proto (rooms s c) = None \<Longrightarrow>
   Chatroom_send c message from None s
     = (None, deliver (recipients (rooms s c) from) message from s)"
proof -
  assume "proto (rooms s c) = None"
  then have "inherited_keys (rooms s c) = []"
    by (simp add: inherited_keys_def)
  then show ?thesis
    by (simp add: broadcast_result)
qed

text \<open>Yoko and John are registered, Yoko sends with no target.\<close>

theorem send_without_target_witness:
  "proto (rooms (snd (script [Register 0 1, Register 0 2] beatles)) 0) = None
   \<and> fst (Chatroom_send 0 ''hi'' 1 None (snd (script [Register 0 1, Register 0 2] beatles))) = None
   \<and> calls (snd (Chatroom_send 0 ''hi'' 1 None (snd (script [Register 0 1, Register 0 2] beatles))))
       = [(2, ''hi'', 1)]"
proof -
  let ?s = "snd (script [Register 0 1, Register 0 2] beatles)"
  have p: "proto (rooms ?s 0) = None" and c: "calls ?s = []"
    and r: "recipients (rooms ?s 0) 1 = [2]"
    by (simp_all add: beatles_def world_defs op_defs recipients_def key_defs List.map_filter_simps)
  from send_without_target [OF p]
  have e: "Chatroom_send 0 ''hi'' 1 None ?s
      = (None, deliver (recipients (rooms ?s 0) 1) ''hi'' 1 ?s)" .
  have "fst (Chatroom_send 0 ''hi'' 1 None ?s) = None"
    by (simp only: e fst_conv)
  moreover have "calls (snd (Chatroom_send 0 ''hi'' 1 None ?s)) = [(2, ''hi'', 1)]"
    by (simp only: e snd_conv deliver_calls c r) simp
  ultimately show ?thesis using p by blast
qed

text \<open>
  Claim C7 as stated fails: with Yoko and John registered, \<open>send("hi", yoko, null)\<close>
  returns without an exception and John has received the message.
\<close>

theorem send_null_target_counterexample:
  "fst (script [Register 0 1, Register 0 2, Send 0 ''hi'' 1 None] beatles) = None
   \<and> calls (snd (script [Register 0 1, Register 0 2, Send 0 ''hi'' 1 None] beatles))
       = [(2, ''hi'', 1)]"
  by (simp add: beatles_def world_defs op_defs key_defs)

lemma script_single: "script [x] s = do_call x s"
  by (cases "do_call x s") (auto split: option.splits)

lemma plain_keys:
  "list_all (\<lambda>k. \<not> is_array_index k) ks \<Longrightarrow>
   filter is_array_index ks = [] \<and> filter (\<lambda>k. \<not> is_array_index k) ks = ks"
  by (induction ks) simp_all

text \<open>
  Claim C3, as amended. Participants with pairwise distinct names, none of them an
  array index and none \<open>__proto__\<close>, are registered with a new chatroom in the order
  \<open>ps\<close>; a broadcast from \<open>a\<close> then returns normally and has called \<open>receive\<close> exactly
  once on each participant of \<open>ps\<close> other than \<open>a\<close>, in the order of registration, and
  never on \<open>a\<close>.
\<close>

theorem broadcast_registration_order:
  assumes "rooms s c = Chatroom"
    and "distinct (map (\<lambda>p. name (parts s p)) ps)"
    and "list_all (\<lambda>p. \<not> is_array_index (name (parts s p)) \<and> name (parts s p) \<noteq> ''__proto__'') ps"
  shows "fst (script (map (Register c) ps @ [Send c message a None]) s) = None
       \<and> calls (snd (script (map (Register c) ps @ [Send c message a None]) s))
           = calls s @ map (\<lambda>p. (p, message, a)) (filter (\<lambda>p. p \<noteq> a) ps)"
proof -
  let ?regs = "map (Register c) ps"
  let ?al = "map (\<lambda>p. (name (parts s p), p)) ps"
  obtain s1 where s1: "s1 = snd (script ?regs s)" by simp
  have d: "distinct (map fst (own (rooms s c)) @ map (\<lambda>p. name (parts s p)) ps)"
    using assms(1,2) by (simp add: Chatroom_def)
  have n: "list_all (\<lambda>p. name (parts s p) \<noteq> ''__proto__'') ps"
    using assms(3) by (simp add: list_all_iff)
  have regs: "script ?regs s = (None, s1)" and own1: "own (rooms s1 c) = ?al"
    and proto1: "proto (rooms s1 c) = None" and calls1: "calls s1 = calls s"
    using register_all [OF d n] assms(1) s1
    by (simp_all add: Chatroom_def prod_eq_iff)
  have plain: "list_all (\<lambda>k. \<not> is_array_index k) (map fst ?al)"
    using assms(3) by (simp add: list_all_iff)
  have keys: "own_property_keys ?al = map fst ?al"
    using plain_keys [OF plain] by (simp add: own_property_keys_def)
  have dal: "distinct (map fst ?al)"
    using assms(2) by (simp add: comp_def)
  have "List.map_filter (map_of ?al) (map fst ?al) = map snd ?al"
    by (rule map_filter_distinct [OF dal])
  then have rec: "recipients (rooms s1 c) a = filter (\<lambda>p. p \<noteq> a) ps"
    by (simp add: recipients_def own1 keys comp_def)
  have "script (?regs @ [Send c message a None]) s = Chatroom_send c message a None s1"
    by (simp only: script_append regs prod.case option.case script_single do_call.simps)
  also have "\<dots> = (None, deliver (filter (\<lambda>p. p \<noteq> a) ps) message a s1)"
    by (simp add: broadcast_result inherited_keys_def proto1 rec)
  finally show ?thesis by (simp add: deliver_calls calls1)
qed

text \<open>The four participants of \<open>run\<close>, and a broadcast from Yoko.\<close>

theorem broadcast_registration_order_witness:
  "fst (script (map (Register 0) [1, 2, 3, 4] @ [Send 0 ''hi'' 1 None]) beatles) = None
   \<and> calls (snd (script (map (Register 0) [1, 2, 3, 4] @ [Send 0 ''hi'' 1 None]) beatles))
       = [(2, ''hi'', 1), (3, ''hi'', 1), (4, ''hi'', 1)]"
  using broadcast_registration_order [of beatles 0 "[1, 2, 3, 4]" "''hi''" 1]
  by (simp add: beatles_def world_defs is_array_index_def is_digit_def)

text \<open>
  Claim C3 as stated fails: after registering \<open>b\<close>, \<open>2\<close>, \<open>1\<close> in this order, a broadcast
  from \<open>b\<close> reaches the participant named \<open>1\<close> before the one named \<open>2\<close>.
\<close>

theorem broadcast_numeric_names_counterexample:
  "map (\<lambda>p. name (parts numbered p)) [1, 2, 3] = [''b'', ''2'', ''1'']
   \<and> calls (snd (script (map (Register 0) [1, 2, 3] @ [Send 0 ''hi'' 1 None]) numbered))
       = [(3, ''hi'', 1), (2, ''hi'', 1)]"
  by (simp add: numbered_def world_defs op_defs key_defs)

text \<open>
  Claim C5. When the registry holds \<open>p1\<close> under the name of \<open>p2\<close>, \<open>register(p2)\<close>
  returns normally; afterwards that name leads to \<open>p2\<close>, the keys and their order (that
  of creation and that of enumeration) and the size of the registry are as before,
  and every other name leads to what it led to before.
\<close>

theorem register_overwrites:
  assumes "map_of (own (rooms s c)) (name (parts s p2)) = Some p1"
  shows "fst (Chatroom_register c p2 s) = None
       \<and> map_of (own (rooms (snd (Chatroom_register c p2 s)) c)) (name (parts s p2)) = Some p2
       \<and> map fst (own (rooms (snd (Chatroom_register c p2 s)) c)) = map fst (own (rooms s c))
       \<and> for_in_keys (rooms (snd (Chatroom_register c p2 s)) c) = for_in_keys (rooms s c)
       \<and> length (own (rooms (snd (Chatroom_register c p2 s)) c)) = length (own (rooms s c))
       \<and> (\<forall>k. k \<noteq> name (parts s p2) \<longrightarrow>
            map_of (own (rooms (snd (Chatroom_register c p2 s)) c)) k = map_of (own (rooms s c)) k)"
proof -
  let ?k = "name (parts s p2)"
  let ?al = "own (rooms s c)"
  let ?r' = "rooms (snd (Chatroom_register c p2 s)) c"
  have r': "?r' = (rooms s c)\<lparr>own := set_property ?k p2 ?al\<rparr>"
    using assms by (simp add: register_fields)
  have keys: "map fst (own ?r') = map fst ?al"
    using assms by (simp add: r' set_property_keys)
  have look: "map_of (own ?r') k = (if k = ?k then Some p2 else map_of ?al k)" for k
    by (simp add: r' map_of_set_property)
  have dom: "(map_of (own ?r') k = None) = (map_of ?al k = None)" for k
    using assms by (simp add: look)
  have proto': "proto ?r' = proto (rooms s c)"
    by (simp add: r')
  have "inherited_keys ?r' = inherited_keys (rooms s c)"
    by (simp only: inherited_keys_def dom proto')
  moreover have "own_property_keys (own ?r') = own_property_keys ?al"
    by (simp only: own_property_keys_def keys)
  ultimately have "for_in_keys ?r' = for_in_keys (rooms s c)"
    by (simp only: for_in_keys_def)
  moreover have "length (own ?r') = length ?al"
    using arg_cong [OF keys, of length] by simp
  ultimately show ?thesis
    using keys look by (simp add: register_fields)
qed

text \<open>The first \<open>A\<close> and \<open>B\<close> are registered, then the second \<open>A\<close>.\<close>

theorem register_overwrites_witness:
  "own (rooms (snd (script [Register 0 1, Register 0 3] namesakes)) 0) = [(''A'', 1), (''B'', 3)]
   \<and> own (rooms (snd (Chatroom_register 0 2 (snd (script [Register 0 1, Register 0 3] namesakes)))) 0)
       = [(''A'', 2), (''B'', 3)]
   \<and> for_in_keys (rooms (snd (Chatroom_register 0 2 (snd (script [Register 0 1, Register 0 3] namesakes)))) 0)
       = [''A'', ''B'']"
proof -
  let ?s = "snd (script [Register 0 1, Register 0 3] namesakes)"
  have own: "own (rooms ?s 0) = [(''A'', 1), (''B'', 3)]"
    and nm: "name (parts ?s 2) = ''A''"
    by (simp_all add: namesakes_def world_defs op_defs)
  have keys: "for_in_keys (rooms ?s 0) = [''A'', ''B'']"
    by (simp add: namesakes_def world_defs op_defs key_defs)
  have own': "own (rooms (snd (Chatroom_register 0 2 ?s)) 0) = [(''A'', 2), (''B'', 3)]"
    by (simp add: namesakes_def world_defs op_defs)
  have hyp: "map_of (own (rooms ?s 0)) (name (parts ?s 2)) = Some 1"
    by (simp only: own nm) simp
  from register_overwrites [OF hyp]
  have "for_in_keys (rooms (snd (Chatroom_register 0 2 ?s)) 0) = for_in_keys (rooms ?s 0)"
    by blast
  then have "for_in_keys (rooms (snd (Chatroom_register 0 2 ?s)) 0) = [''A'', ''B'']"
    by (simp only: keys)
  with own own' show ?thesis by blast
qed

text \<open>No call changes a registry other than \<open>register\<close>, and \<open>register\<close> removes no key.\<close>

lemma send_rooms: "rooms (snd (Chatroom_send c m f to s)) = rooms s"
  by (cases to) (simp_all add: broadcast_result, simp add: Chatroom_send_def)

lemma do_call_keys:
  "k \<in> fst ` set (own (rooms s c)) \<Longrightarrow> k \<in> fst ` set (own (rooms (snd (do_call x s)) c))"
proof (cases x)
  case (Register c' p)
  assume "k \<in> fst ` set (own (rooms s c))"
  then show ?thesis
    by (cases "c' = c") (auto simp: Register register_fields set_property_key_set)
next
  case (Send c' m f to)
  assume "k \<in> fst ` set (own (rooms s c))"
  then show ?thesis by (simp add: Send send_rooms)
next
  case (ParticipantSend p m to)
  assume "k \<in> fst ` set (own (rooms s c))"
  then show ?thesis
    by (simp add: ParticipantSend Participant_send_def send_rooms split: option.splits)
qed

text \<open>
  Claim C6, as amended. The channel has no \<open>unregister\<close> operation: its operations are
  \<open>register\<close> and \<open>send\<close>. A key of the registry is still a key of the registry after
  any sequence of calls of \<open>register\<close> and \<open>send\<close>, on this or another channel, by the
  channel or through a participant.
\<close>

theorem entries_persist:
  assumes "k \<in> fst ` set (own (rooms s c))"
  shows "''unregister'' \<notin> set Chatroom_methods
       \<and> k \<in> fst ` set (own (rooms (snd (script xs s)) c))"
proof -
  have "k \<in> fst ` set (own (rooms (snd (script xs s)) c))"
    using assms
  proof (induction xs arbitrary: s)
    case Nil
    then show ?case by simp
  next
    case (Cons x xs)
    obtain e s' where r: "do_call x s = (e, s')" by (cases "do_call x s")
    have k': "k \<in> fst ` set (own (rooms s' c))"
      using do_call_keys [OF Cons.prems, of x] r by simp
    show ?case
    proof (cases e)
      case None
      then show ?thesis using Cons.IH [OF k'] r by simp
    next
      case (Some err)
      then show ?thesis using k' r by simp
    qed
  qed
  then show ?thesis by (simp add: Chatroom_methods_def)
qed

text \<open>Yoko stays registered through later registrations and a broadcast.\<close>

theorem entries_persist_witness:
  "''Yoko'' \<in> fst ` set (own (rooms (snd (script [Register 0 1]  beatles)) 0))
   \<and> ''Yoko'' \<in> fst ` set (own (rooms (snd (script [Register 0 2, ParticipantSend 1 ''hi'' None, Register 0 1]
            (snd (script [Register 0 1] beatles)))) 0))"
proof -
  have "''Yoko'' \<in> fst ` set (own (rooms (snd (script [Register 0 1]  beatles)) 0))"
    by (simp add: beatles_def world_defs op_defs)
  then show ?thesis
    using entries_persist [of "''Yoko''" "snd (script [Register 0 1] beatles)" 0
        "[Register 0 2, ParticipantSend 1 ''hi'' None, Register 0 1]"]
    by simp
qed

text \<open>
  Claim C6 as stated fails: the object the constructor returns has no property
  \<open>unregister\<close>.
\<close>

theorem no_unregister_counterexample: "''unregister'' \<notin> set Chatroom_methods"
  by (simp add: Chatroom_methods_def)

end
